theory Spec2Isabelle
  imports Main "HOL-Library.Sublist"
begin

section \<open>Data model of \<open>src/index.ts\<close>\<close>

text \<open>
  JavaScript strings are modelled as \<open>string\<close>; \<open>length\<close> is the \<open>.length\<close> of the
  source.  The optional numeric option \<open>maxWidth\<close> is an \<open>int\<close>.
\<close>

datatype PartType = Command | Argument | Operator

text \<open>
  \<open>interface CommandPart\<close>.  The two optional flags are only ever tested for truthiness,
  so an absent flag is \<open>False\<close>.
\<close>

record CommandPart =
  type :: PartType
  "value" :: string
  isLongOption :: bool
  isShortOption :: bool

text \<open>\<open>interface PrettifyOptions\<close> and \<open>interface PreviewOptions\<close>: every field is optional.\<close>

record PrettifyOptions =
  maxWidth :: "int option"
  indent :: "string option"
  flagsOnNewLine :: "bool option"
  disableColors :: "bool option"

record PreviewOptions = PrettifyOptions +
  showPretty :: "bool option"

record CommandPreview =
  original :: string
  pretty :: "string option"
  shouldPrettify :: bool

text \<open>
  The entries that the external tokenizer \<open>parse\<close> of the package \<open>shell-quote\<close> returns:
  a plain string, \<open>{op: ...}\<close> for a control operator, \<open>{op: "glob", pattern: ...}\<close> and
  \<open>{comment: ...}\<close>.  A call of \<open>parse\<close> either throws or returns a list of entries; the
  tokenizer itself is a parameter \<open>parse\<close> of everything below.
\<close>

datatype ParseEntry = Str string | Op string | Glob string | Comment string

datatype error = ParseError

type_synonym tokenizer = "string \<Rightarrow> error + ParseEntry list"

text \<open>
  The styling library \<open>chalk\<close> is external as well: its colour level and the seven stylers
  that \<open>applyHighlighting\<close> calls are the fields of a parameter.
\<close>

record Chalk =
  level :: nat
  cyan_bold :: "string \<Rightarrow> string"
  yellow_bold :: "string \<Rightarrow> string"
  green :: "string \<Rightarrow> string"
  blue :: "string \<Rightarrow> string"
  magenta :: "string \<Rightarrow> string"
  blue_underline :: "string \<Rightarrow> string"
  white :: "string \<Rightarrow> string"

section \<open>String primitives\<close>

definition startsWith :: "string \<Rightarrow> string \<Rightarrow> bool" where
  "startsWith s p = (take (length p) s = p)"

text \<open>\<open>String.prototype.includes\<close>: a left-to-right search for the needle.\<close>

fun str_includes :: "string \<Rightarrow> string \<Rightarrow> bool" where
  "str_includes [] needle = (needle = [])"
| "str_includes (c # cs) needle = (startsWith (c # cs) needle \<or> str_includes cs needle)"

text \<open>The regular-expression classes \<open>\d\<close> and \<open>\w\<close>.\<close>

definition is_digit :: "char \<Rightarrow> bool" where
  "is_digit c = (c \<in> set ''0123456789'')"

definition is_word :: "char \<Rightarrow> bool" where
  "is_word c =
     (c \<in> set ''abcdefghijklmnopqrstuvwxyzABCDEFGHIJKLMNOPQRSTUVWXYZ0123456789_'')"

text \<open>\<open>part.match(/^-\d/)\<close> is truthy exactly when the string starts with a dash and a digit.\<close>

fun match_dash_digit :: "string \<Rightarrow> bool" where
  "match_dash_digit (a # b # _) = (a = CHR ''-'' \<and> is_digit b)"
| "match_dash_digit _ = False"

text \<open>
  \<open>String.prototype.trim\<close> strips white space at both ends; the white-space characters in
  the range of \<open>char\<close> are TAB, LF, VT, FF, CR, space and NBSP.
\<close>

definition is_space :: "char \<Rightarrow> bool" where
  "is_space c = (c \<in> {CHR 0x09, CHR 0x0A, CHR 0x0B, CHR 0x0C, CHR 0x0D, CHR 0x20, CHR 0xA0})"

definition trim :: "string \<Rightarrow> string" where
  "trim s = rev (dropWhile is_space (rev (dropWhile is_space s)))"

text \<open>\<open>Array.prototype.join\<close>.\<close>

fun join :: "string \<Rightarrow> string list \<Rightarrow> string" where
  "join sep [] = []"
| "join sep [x] = x"
| "join sep (x # y # ys) = x @ sep @ join sep (y # ys)"

section \<open>\<open>parseCommand\<close>\<close>

definition is_operator :: "CommandPart \<Rightarrow> bool" where
  "is_operator p = (type p = Operator)"

text \<open>One iteration of the \<open>for (const part of parsed)\<close> loop, on the array \<open>parts\<close> so far.\<close>

definition push_entry :: "CommandPart list \<Rightarrow> ParseEntry \<Rightarrow> CommandPart list" where
  "push_entry parts e =
     (case e of
        Str part \<Rightarrow>
          if startsWith part ''--'' then
            parts @ [\<lparr>type = Argument, value = part, isLongOption = True, isShortOption = False\<rparr>]
          else if startsWith part ''-'' \<and> length part > 1 \<and> \<not> match_dash_digit part then
            parts @ [\<lparr>type = Argument, value = part, isLongOption = False, isShortOption = True\<rparr>]
          else
            let isCommand = (length parts = 0 \<or> list_all is_operator parts) in
            parts @ [\<lparr>type = (if isCommand then Command else Argument), value = part,
                       isLongOption = False, isShortOption = False\<rparr>]
      | Op opv \<Rightarrow>
          parts @ [\<lparr>type = Operator, value = opv, isLongOption = False, isShortOption = False\<rparr>]
      | Glob _ \<Rightarrow>
          parts @ [\<lparr>type = Operator, value = ''glob'', isLongOption = False, isShortOption = False\<rparr>]
      | Comment _ \<Rightarrow> parts)"

fun parse_loop :: "CommandPart list \<Rightarrow> ParseEntry list \<Rightarrow> CommandPart list" where
  "parse_loop parts [] = parts"
| "parse_loop parts (e # es) = parse_loop (push_entry parts e) es"

definition parseCommand :: "tokenizer \<Rightarrow> string \<Rightarrow> error + CommandPart list" where
  "parseCommand parse command =
     (case parse command of
        Inl err \<Rightarrow> Inl err
      | Inr parsed \<Rightarrow> Inr (parse_loop [] parsed))"

section \<open>\<open>applyHighlighting\<close>\<close>

text \<open>\<open>part.value.match(/^https?:\/\//)\<close>.\<close>

definition match_url :: "string \<Rightarrow> bool" where
  "match_url s = (startsWith s ''http://'' \<or> startsWith s ''https://'')"

definition backslash :: string where
  "backslash = [CHR 0x5C]"

definition applyHighlighting :: "Chalk \<Rightarrow> CommandPart \<Rightarrow> string" where
  "applyHighlighting chalk part =
     (if level chalk = 0 then value part
      else case type part of
        Command \<Rightarrow> cyan_bold chalk (value part)
      | Operator \<Rightarrow> yellow_bold chalk (value part)
      | Argument \<Rightarrow>
          if isLongOption part then green chalk (value part)
          else if isShortOption part then green chalk (value part)
          else if str_includes (value part) ''/'' \<or> str_includes (value part) backslash
            then blue chalk (value part)
          else if str_includes (value part) ''='' then magenta chalk (value part)
          else if match_url (value part) then blue_underline chalk (value part)
          else white chalk (value part))"

section \<open>\<open>prettifyCommand\<close>\<close>

text \<open>The four options after destructuring, with their defaults filled in.\<close>

record LayoutConfig =
  cfg_maxWidth :: int
  cfg_indent :: string
  cfg_flagsOnNewLine :: bool
  cfg_disableColors :: bool

definition resolve :: "PrettifyOptions \<Rightarrow> LayoutConfig" where
  "resolve options =
     \<lparr>cfg_maxWidth = (case maxWidth options of None \<Rightarrow> 80 | Some w \<Rightarrow> w),
      cfg_indent = (case indent options of None \<Rightarrow> ''  '' | Some s \<Rightarrow> s),
      cfg_flagsOnNewLine = (case flagsOnNewLine options of None \<Rightarrow> False | Some b \<Rightarrow> b),
      cfg_disableColors = (case disableColors options of None \<Rightarrow> False | Some b \<Rightarrow> b)\<rparr>"

text \<open>The two local variables that the layout loop mutates.\<close>

record LayoutState =
  result :: "string list"
  currentLine :: string

text \<open>\<open>!disableColors ? applyHighlighting(part) : part.value\<close>\<close>

definition render :: "Chalk \<Rightarrow> LayoutConfig \<Rightarrow> CommandPart \<Rightarrow> string" where
  "render chalk cfg part =
     (if \<not> cfg_disableColors cfg then applyHighlighting chalk part else value part)"

text \<open>The continuation marker \<open>" \\"\<close>: a space and one backslash.\<close>

definition continuation :: string where
  "continuation = '' '' @ backslash"

text \<open>\<open>result.push(`${currentLine} \\`); currentLine = indent + v\<close>\<close>

definition break_line :: "LayoutConfig \<Rightarrow> LayoutState \<Rightarrow> string \<Rightarrow> LayoutState" where
  "break_line cfg st v =
     \<lparr>result = result st @ [currentLine st @ continuation], currentLine = cfg_indent cfg @ v\<rparr>"

text \<open>The \<open>switch (part.value)\<close> of the operator branch.\<close>

definition operator_step :: "string \<Rightarrow> string \<Rightarrow> LayoutState \<Rightarrow> LayoutState" where
  "operator_step v partValue st =
     (if v = ''&&'' \<or> v = ''||'' \<or> v = ''|'' then
        \<lparr>result = result st @ [currentLine st @ '' '' @ partValue], currentLine = []\<rparr>
      else if v = '';'' then
        \<lparr>result = result st @ [currentLine st @ partValue], currentLine = []\<rparr>
      else st\<lparr>currentLine := currentLine st @ '' '' @ partValue\<rparr>)"

text \<open>Placement of an argument: the first \<open>if\<close>/\<open>else\<close> of the argument branch.\<close>

definition place_argument :: "LayoutConfig \<Rightarrow> CommandPart \<Rightarrow> string \<Rightarrow> LayoutState \<Rightarrow> LayoutState" where
  "place_argument cfg part partValue st =
     (let argWithSpace = '' '' @ partValue in
      if cfg_flagsOnNewLine cfg \<and> (isLongOption part \<or> isShortOption part) then
        (if trim (currentLine st) \<noteq> [] then break_line cfg st partValue
         else st\<lparr>currentLine := currentLine st @ argWithSpace\<rparr>)
      else
        (if int (length (currentLine st) + length argWithSpace) > cfg_maxWidth cfg
            \<and> length (currentLine st) > 0
         then break_line cfg st partValue
         else st\<lparr>currentLine := currentLine st @ argWithSpace\<rparr>))"

text \<open>
  The body of the \<open>for\<close> loop at index \<open>i < parts.length\<close>.  It returns the new state and the
  value of \<open>i\<close> at the end of the body, which the look-ahead of a long option may have
  incremented.
\<close>

definition loop_body ::
  "Chalk \<Rightarrow> LayoutConfig \<Rightarrow> CommandPart list \<Rightarrow> nat \<Rightarrow> LayoutState \<Rightarrow> LayoutState \<times> nat" where
  "loop_body chalk cfg parts i st =
     (let part = parts ! i;
          isLastPart = (i = length parts - 1);
          partValue = render chalk cfg part
      in if type part = Command then (st\<lparr>currentLine := partValue\<rparr>, i)
         else if type part = Operator then (operator_step (value part) partValue st, i)
         else
           let st1 = place_argument cfg part partValue st in
           if isLongOption part \<and> \<not> isLastPart \<and> \<not> cfg_flagsOnNewLine cfg then
             let nextPart = parts ! (i + 1) in
             if type nextPart = Argument \<and> \<not> isLongOption nextPart \<and> \<not> isShortOption nextPart then
               let nextPartValue = render chalk cfg nextPart;
                   nextArgWithSpace = '' '' @ nextPartValue
               in if int (length (currentLine st1) + length nextArgWithSpace) > cfg_maxWidth cfg
                  then (break_line cfg st1 nextPartValue, i + 1)
                  else (st1, i)
             else (st1, i)
           else (st1, i))"

function layout_loop ::
  "Chalk \<Rightarrow> LayoutConfig \<Rightarrow> CommandPart list \<Rightarrow> nat \<Rightarrow> LayoutState \<Rightarrow> LayoutState" where
  "layout_loop chalk cfg parts i st =
     (if i < length parts then
        layout_loop chalk cfg parts (snd (loop_body chalk cfg parts i st) + 1)
          (fst (loop_body chalk cfg parts i st))
      else st)"
  by pat_completeness auto
termination
  by (relation "measure (\<lambda>(chalk, cfg, parts, i, st). length parts - i)")
    (auto simp: loop_body_def Let_def)

declare layout_loop.simps [simp del]

definition newline :: string where
  "newline = [CHR 0x0A]"

text \<open>\<open>const result: string[] = []; let currentLine = "";\<close>\<close>

definition initial_state :: LayoutState where
  "initial_state = \<lparr>result = [], currentLine = []\<rparr>"

text \<open>\<open>if (currentLine) result.push(currentLine);\<close> gives the lines of the output.\<close>

definition final_push :: "LayoutState \<Rightarrow> string list" where
  "final_push st = (if currentLine st \<noteq> [] then result st @ [currentLine st] else result st)"

text \<open>\<open>return result.join("\n")\<close>\<close>

definition finish :: "LayoutState \<Rightarrow> string" where
  "finish st = join newline (final_push st)"

text \<open>
  The \<open>try\<close> block has one source of exceptions, the tokenizer; the \<open>catch\<close> returns the
  command.
\<close>

definition prettifyCommand :: "tokenizer \<Rightarrow> Chalk \<Rightarrow> string \<Rightarrow> PrettifyOptions \<Rightarrow> string" where
  "prettifyCommand parse chalk command options =
     (let cfg = resolve options in
      case parseCommand parse command of
        Inl err \<Rightarrow> command
      | Inr parts \<Rightarrow>
          if length parts = 0 then command
          else if int (length command) \<le> cfg_maxWidth cfg then command
          else finish (layout_loop chalk cfg parts 0 initial_state))"

text \<open>A call without the second argument: \<open>options = {}\<close>.\<close>

definition no_options :: PrettifyOptions where
  "no_options = \<lparr>maxWidth = None, indent = None, flagsOnNewLine = None, disableColors = None\<rparr>"

section \<open>\<open>shouldPrettifyCommand\<close>, \<open>getCommandPreview\<close>, \<open>prettifyCommands\<close>\<close>

text \<open>
  \<open>(command.match(/--\w+/g) || []).length\<close>: the number of matches of a global search, each
  one starting where the previous one ended.  A match is two dashes and the longest run of
  word characters after them, which must not be empty.
\<close>

function count_long_options :: "string \<Rightarrow> nat" where
  "count_long_options [] = 0"
| "count_long_options [a] = 0"
| "count_long_options [a, b] = 0"
| "count_long_options (a # b # c # cs) =
     (if a = CHR ''-'' \<and> b = CHR ''-'' \<and> is_word c
      then 1 + count_long_options (dropWhile is_word cs)
      else count_long_options (b # c # cs))"
  by pat_completeness auto
termination
  by (relation "measure length") (auto simp: less_Suc_eq_le le_SucI length_dropWhile_le)

definition shouldPrettifyCommand :: "string \<Rightarrow> int option \<Rightarrow> bool" where
  "shouldPrettifyCommand command threshold_opt =
     (let threshold = (case threshold_opt of None \<Rightarrow> 80 | Some t \<Rightarrow> t) in
      int (length command) > threshold \<or>
      str_includes command ''&&'' \<or>
      str_includes command ''||'' \<or>
      str_includes command '';'' \<or>
      str_includes command ''|'' \<or>
      count_long_options command > 3)"

definition getCommandPreview :: "tokenizer \<Rightarrow> Chalk \<Rightarrow> string \<Rightarrow> PreviewOptions \<Rightarrow> CommandPreview" where
  "getCommandPreview parse chalk command options =
     (let showPretty' = (case showPretty options of None \<Rightarrow> False | Some b \<Rightarrow> b);
          maxWidth' = (case maxWidth options of None \<Rightarrow> 80 | Some w \<Rightarrow> w);
          indent' = (case indent options of None \<Rightarrow> ''  '' | Some s \<Rightarrow> s);
          flagsOnNewLine' = (case flagsOnNewLine options of None \<Rightarrow> False | Some b \<Rightarrow> b);
          disableColors' = (case disableColors options of None \<Rightarrow> False | Some b \<Rightarrow> b);
          shouldPrettify' = shouldPrettifyCommand command (Some maxWidth')
      in \<lparr>original = command,
          pretty =
            (if showPretty' \<and> shouldPrettify' then
               Some (prettifyCommand parse chalk command
                      \<lparr>maxWidth = Some maxWidth', indent = Some indent',
                       flagsOnNewLine = Some flagsOnNewLine', disableColors = Some disableColors'\<rparr>)
             else None),
          shouldPrettify = shouldPrettify'\<rparr>)"

definition prettifyCommands :: "tokenizer \<Rightarrow> Chalk \<Rightarrow> string list \<Rightarrow> PrettifyOptions \<Rightarrow> string list" where
  "prettifyCommands parse chalk commands options =
     map (\<lambda>cmd. prettifyCommand parse chalk cmd options) commands"

section \<open>Stand-ins for the two external libraries\<close>

text \<open>
  Modelled from the spec: the tokenizer (section 4.1), which is the function \<open>parse\<close> of the
  package \<open>shell-quote\<close> and not part of this repository.  Words are separated by white
  space; \<open>&&\<close>, \<open>||\<close>, \<open>;\<close> and \<open>|\<close> outside quotes are control operators; single and double
  quotes group characters into the current word; a quote that is never closed is an error.
  It is used only to run the functions above on concrete commands.

  \<open>lex q w acc cs\<close>: \<open>q\<close> is the open quote, if any, \<open>w\<close> the word under construction,
  if any, \<open>acc\<close> the entries so far.
\<close>

definition flush :: "string option \<Rightarrow> ParseEntry list \<Rightarrow> ParseEntry list" where
  "flush w acc = (case w of None \<Rightarrow> acc | Some s \<Rightarrow> acc @ [Str s])"

definition extend :: "string option \<Rightarrow> string \<Rightarrow> string option" where
  "extend w s = (case w of None \<Rightarrow> Some s | Some t \<Rightarrow> Some (t @ s))"

fun lex :: "char option \<Rightarrow> string option \<Rightarrow> ParseEntry list \<Rightarrow> string \<Rightarrow> error + ParseEntry list" where
  "lex None w acc [] = Inr (flush w acc)"
| "lex (Some q) w acc [] = Inl ParseError"
| "lex (Some q) w acc (c # cs) =
     (if c = q then lex None w acc cs else lex (Some q) (extend w [c]) acc cs)"
| "lex None w acc (c # cs) =
     (if is_space c then lex None None (flush w acc) cs
      else if c = CHR 0x27 \<or> c = CHR 0x22 then lex (Some c) (extend w []) acc cs
      else if c = CHR '';'' then lex None None (flush w acc @ [Op '';'']) cs
      else if c = CHR ''&'' \<and> cs \<noteq> [] \<and> hd cs = CHR ''&''
        then lex None None (flush w acc @ [Op ''&&'']) (tl cs)
      else if c = CHR ''|'' \<and> cs \<noteq> [] \<and> hd cs = CHR ''|''
        then lex None None (flush w acc @ [Op ''||'']) (tl cs)
      else if c = CHR ''|'' then lex None None (flush w acc @ [Op ''|'']) cs
      else lex None (extend w [c]) acc cs)"

definition shell_words :: tokenizer where
  "shell_words command = lex None None [] command"

text \<open>
  Modelled from the spec: the styling facility (section 6), which is the package \<open>chalk\<close>.
  With a non-zero colour level a styler wraps its argument in ANSI escape sequences; with
  level zero it returns the text unchanged.
\<close>

definition ansi :: "string \<Rightarrow> string \<Rightarrow> string \<Rightarrow> string" where
  "ansi opn cls s = CHR 0x1B # CHR ''['' # opn @ ''m'' @ s @ CHR 0x1B # CHR ''['' # cls @ ''m''"

definition colour_chalk :: Chalk where
  "colour_chalk =
     \<lparr>level = 3,
      cyan_bold = (\<lambda>s. ansi ''36'' ''39'' (ansi ''1'' ''22'' s)),
      yellow_bold = (\<lambda>s. ansi ''33'' ''39'' (ansi ''1'' ''22'' s)),
      green = ansi ''32'' ''39'',
      blue = ansi ''34'' ''39'',
      magenta = ansi ''35'' ''39'',
      blue_underline = (\<lambda>s. ansi ''34'' ''39'' (ansi ''4'' ''24'' s)),
      white = ansi ''37'' ''39''\<rparr>"

definition plain_chalk :: Chalk where
  "plain_chalk =
     \<lparr>level = 0, cyan_bold = id, yellow_bold = id, green = id, blue = id, magenta = id,
      blue_underline = id, white = id\<rparr>"

section \<open>Predicates used in the statements\<close>

text \<open>
  The iterations of the layout loop that are entered from index \<open>i\<close> and state \<open>st\<close>: the
  index and the state at the start of each run of the body.
\<close>

function loop_heads ::
  "Chalk \<Rightarrow> LayoutConfig \<Rightarrow> CommandPart list \<Rightarrow> nat \<Rightarrow> LayoutState \<Rightarrow> (nat \<times> LayoutState) list" where
  "loop_heads chalk cfg parts i st =
     (if i < length parts then
        (i, st) # loop_heads chalk cfg parts (snd (loop_body chalk cfg parts i st) + 1)
                    (fst (loop_body chalk cfg parts i st))
      else [])"
  by pat_completeness auto
termination
  by (relation "measure (\<lambda>(chalk, cfg, parts, i, st). length parts - i)")
    (auto simp: loop_body_def Let_def)

declare loop_heads.simps [simp del]

text \<open>The lines of the output of the layout loop on a list of parts.\<close>

definition layout_lines :: "Chalk \<Rightarrow> LayoutConfig \<Rightarrow> CommandPart list \<Rightarrow> string list" where
  "layout_lines chalk cfg parts = final_push (layout_loop chalk cfg parts 0 initial_state)"

text \<open>
  \<open>extends st st'\<close>: the lines of \<open>st\<close> are still there in \<open>st'\<close>, and the line under
  construction in \<open>st\<close> is the beginning of the next line of \<open>st'\<close>, emitted or not.
\<close>

definition extends :: "LayoutState \<Rightarrow> LayoutState \<Rightarrow> bool" where
  "extends st st' =
     ((result st' = result st \<and> prefix (currentLine st) (currentLine st')) \<or>
      (\<exists>l more. result st' = result st @ l # more \<and> prefix (currentLine st) l))"

text \<open>The characters of the lines of a state.\<close>

definition state_chars :: "LayoutState \<Rightarrow> char set" where
  "state_chars st = set (currentLine st) \<union> (\<Union>l\<in>set (result st). set l)"

definition part_chars :: "CommandPart list \<Rightarrow> char set" where
  "part_chars parts = (\<Union>p\<in>set parts. set (value p))"

text \<open>
  The invariant of section 3 of the specification, in its words: the first part that is
  not an operator is a command, the parts after it up to the next operator are arguments,
  and an operator makes the next part a command again.  \<open>expect\<close> says whether the next
  part that is not an operator has to be a command.
\<close>

fun chain_inv :: "bool \<Rightarrow> CommandPart list \<Rightarrow> bool" where
  "chain_inv expect [] = True"
| "chain_inv expect (p # ps) =
     (if type p = Operator then chain_inv True ps
      else type p = (if expect then Command else Argument) \<and> chain_inv False ps)"

definition chain_invariant :: "CommandPart list \<Rightarrow> bool" where
  "chain_invariant parts = chain_inv True parts"

definition is_option :: "CommandPart \<Rightarrow> bool" where
  "is_option p = (isLongOption p \<or> isShortOption p)"

definition well_classified :: "CommandPart list \<Rightarrow> bool" where
  "well_classified parts =
     (\<forall>k<length parts. type (parts ! k) \<noteq> Operator \<longrightarrow>
        type (parts ! k) =
          (if \<not> is_option (parts ! k) \<and> list_all is_operator (take k parts)
           then Command else Argument))"

text \<open>
  A part with a value that starts with a dash and a digit carries neither option flag.
\<close>

definition plain_dash_digit :: "CommandPart list \<Rightarrow> bool" where
  "plain_dash_digit parts =
     (\<forall>p\<in>set parts. match_dash_digit (value p) \<longrightarrow> \<not> isShortOption p \<and> \<not> isLongOption p)"

text \<open>
  The positions of a string at which two dashes and a word character stand, and their
  number counted from left to right.
\<close>

definition long_option_starts :: "string \<Rightarrow> nat set" where
  "long_option_starts s =
     {i. i + 2 < length s \<and> s ! i = CHR ''-'' \<and> s ! (i + 1) = CHR ''-'' \<and> is_word (s ! (i + 2))}"

fun starts_long :: "string \<Rightarrow> bool" where
  "starts_long (a # b # c # _) = (a = CHR ''-'' \<and> b = CHR ''-'' \<and> is_word c)"
| "starts_long _ = False"

fun count_starts :: "string \<Rightarrow> nat" where
  "count_starts [] = 0"
| "count_starts (a # s) = (if starts_long (a # s) then 1 else 0) + count_starts s"

text \<open>
  Two consecutive lines of which the first ends with \<open>marker\<close> and the second begins with
  \<open>start\<close>.
\<close>

fun flag_line_ok :: "string \<Rightarrow> string \<Rightarrow> string list \<Rightarrow> bool" where
  "flag_line_ok marker start (l1 # l2 # ls) =
     ((suffix marker l1 \<and> prefix start l2) \<or> flag_line_ok marker start (l2 # ls))"
| "flag_line_ok marker start _ = False"

text \<open>
  The flags-on-new-line property as the specification states it: every long or short option
  begins a line after the indent, and the line before it ends with the continuation marker.
\<close>

definition flags_on_new_lines ::
  "Chalk \<Rightarrow> LayoutConfig \<Rightarrow> CommandPart list \<Rightarrow> string list \<Rightarrow> bool" where
  "flags_on_new_lines chalk cfg parts lines =
     list_all (\<lambda>p. is_option p \<longrightarrow>
                flag_line_ok continuation (cfg_indent cfg @ render chalk cfg p) lines) parts"

definition options_are_arguments :: "CommandPart list \<Rightarrow> bool" where
  "options_are_arguments parts = (\<forall>p\<in>set parts. is_option p \<longrightarrow> type p = Argument)"

text \<open>
  The characters that plain layout can produce: those of the part values, of the indent,
  the space and the backslash; and, for the whole of \<open>prettifyCommand\<close>, those of the
  command and the newline as well.
\<close>

definition plain_alphabet :: "LayoutConfig \<Rightarrow> CommandPart list \<Rightarrow> char set" where
  "plain_alphabet cfg parts =
     part_chars parts \<union> set (cfg_indent cfg) \<union> {CHR '' '', CHR 0x5C}"

definition output_alphabet :: "tokenizer \<Rightarrow> string \<Rightarrow> PrettifyOptions \<Rightarrow> char set" where
  "output_alphabet parse command options =
     set command
     \<union> (case parseCommand parse command of Inl err \<Rightarrow> {} | Inr parts \<Rightarrow> part_chars parts)
     \<union> set (cfg_indent (resolve options))
     \<union> {CHR '' '', CHR 0x5C, CHR 0x0A}"

section \<open>The short-circuits of \<open>prettifyCommand\<close>\<close>

text \<open>
  C1.  Whatever the tokenizer, the styler and the other options are, a command whose length
  is at most \<open>maxWidth\<close> (80 when the option is absent) is returned unchanged.
\<close>

theorem prettify_short_identity:
  assumes "int (length command) \<le> (case maxWidth options of None \<Rightarrow> 80 | Some w \<Rightarrow> w)"
  shows "prettifyCommand parse chalk command options = command"
  using assms by (simp add: prettifyCommand_def resolve_def Let_def split: sum.splits)

theorem prettify_short_identity_witness:
  "int (length ''ls -la'') \<le> (case maxWidth no_options of None \<Rightarrow> 80 | Some w \<Rightarrow> w)
   \<and> prettifyCommand shell_words colour_chalk ''ls -la'' no_options = ''ls -la''"
  using prettify_short_identity [of "''ls -la''" no_options shell_words colour_chalk]
  by (simp add: no_options_def)

text \<open>
  C4.  When the tokenizer throws on a command, \<open>prettifyCommand\<close> returns that command
  unchanged.  The result type of \<open>prettifyCommand\<close> is a string: no error leaves it.
\<close>

theorem prettify_tokenizer_error:
  assumes "parse command = Inl err"
  shows "prettifyCommand parse chalk command options = command"
  using assms by (simp add: prettifyCommand_def parseCommand_def)

theorem prettify_tokenizer_error_witness:
  "shell_words ''echo \"never closed'' = Inl ParseError
   \<and> prettifyCommand shell_words colour_chalk ''echo \"never closed''
        (no_options\<lparr>maxWidth := Some 5\<rparr>) = ''echo \"never closed''"
  using prettify_tokenizer_error [of shell_words "''echo \"never closed''" ParseError
      colour_chalk "no_options\<lparr>maxWidth := Some 5\<rparr>"]
  by (simp add: shell_words_def is_space_def extend_def flush_def)

text \<open>
  C10.  When tokenization succeeds and no part comes out of it, \<open>prettifyCommand\<close> returns
  the command unchanged, whatever its length.
\<close>

theorem prettify_no_parts:
  assumes "parseCommand parse command = Inr []"
  shows "prettifyCommand parse chalk command options = command"
  using assms by (simp add: prettifyCommand_def)

theorem prettify_no_parts_witness:
  "parseCommand shell_words ''    '' = Inr []
   \<and> int (length ''    '') > 2
   \<and> prettifyCommand shell_words colour_chalk ''    '' (no_options\<lparr>maxWidth := Some 2\<rparr>) = ''    ''"
  using prettify_no_parts [of shell_words "''    ''" colour_chalk "no_options\<lparr>maxWidth := Some 2\<rparr>"]
  by (simp add: parseCommand_def shell_words_def is_space_def extend_def flush_def)

section \<open>The classifier\<close>

lemma push_entry_keeps: "set parts \<subseteq> set (push_entry parts e)"
  by (auto simp: push_entry_def Let_def split: ParseEntry.splits)

lemma parse_loop_keeps: "set parts \<subseteq> set (parse_loop parts es)"
proof (induction es arbitrary: parts)
  case Nil
  show ?case by simp
next
  case (Cons e es)
  have "set parts \<subseteq> set (push_entry parts e)" by (rule push_entry_keeps)
  also have "\<dots> \<subseteq> set (parse_loop (push_entry parts e) es)" by (rule Cons.IH)
  finally show ?case by simp
qed

lemma push_entry_Str: "\<exists>p\<in>set (push_entry parts (Str tok)). value p = tok \<and> type p \<noteq> Operator"
  by (simp add: push_entry_def Let_def)

lemma parse_loop_Str:
  "Str tok \<in> set es \<Longrightarrow> \<exists>p\<in>set (parse_loop parts es). value p = tok \<and> type p \<noteq> Operator"
proof (induction es arbitrary: parts)
  case Nil
  then show ?case by simp
next
  case (Cons e es)
  show ?case
  proof (cases "e = Str tok")
    case True
    obtain p where "p \<in> set (push_entry parts (Str tok))" "value p = tok" "type p \<noteq> Operator"
      using push_entry_Str by blast
    moreover have "set (push_entry parts (Str tok)) \<subseteq> set (parse_loop (push_entry parts (Str tok)) es)"
      by (rule parse_loop_keeps)
    ultimately show ?thesis using True by auto
  next
    case False
    with Cons.prems have "Str tok \<in> set es" by simp
    from Cons.IH [OF this] show ?thesis by simp
  qed
qed

lemma match_dash_digit_not_long: "match_dash_digit s \<Longrightarrow> \<not> startsWith s ''--''"
  by (cases s rule: match_dash_digit.cases) (auto simp: startsWith_def is_digit_def)

lemma push_entry_plain_dash_digit:
  "plain_dash_digit parts \<Longrightarrow> plain_dash_digit (push_entry parts e)"
  by (auto simp: plain_dash_digit_def push_entry_def Let_def match_dash_digit_not_long
        split: ParseEntry.splits)

lemma parse_loop_plain_dash_digit:
  "plain_dash_digit parts \<Longrightarrow> plain_dash_digit (parse_loop parts es)"
  by (induction es arbitrary: parts) (simp_all add: push_entry_plain_dash_digit)

lemmas run_tokenizer = shell_words_def is_space_def extend_def flush_def

lemmas run_parser = parseCommand_def push_entry_def startsWith_def is_digit_def is_operator_def

text \<open>
  C9.  A string token that starts with a dash and a digit comes out of \<open>parseCommand\<close> as a
  part that is no operator, and every part with that value has neither \<open>isShortOption\<close> nor
  \<open>isLongOption\<close> set.
\<close>

theorem dash_digit_never_short_option:
  assumes "parse command = Inr es" and "Str tok \<in> set es" and "match_dash_digit tok"
  shows "\<exists>parts. parseCommand parse command = Inr parts
           \<and> (\<exists>p\<in>set parts. value p = tok \<and> type p \<noteq> Operator)
           \<and> (\<forall>p\<in>set parts. value p = tok \<longrightarrow> \<not> isShortOption p \<and> \<not> isLongOption p)"
proof -
  have "plain_dash_digit (parse_loop [] es)"
    by (rule parse_loop_plain_dash_digit) (simp add: plain_dash_digit_def)
  with assms(3) have "\<forall>p\<in>set (parse_loop [] es). value p = tok \<longrightarrow> \<not> isShortOption p \<and> \<not> isLongOption p"
    by (auto simp: plain_dash_digit_def)
  moreover have "\<exists>p\<in>set (parse_loop [] es). value p = tok \<and> type p \<noteq> Operator"
    using assms(2) by (rule parse_loop_Str)
  ultimately show ?thesis using assms(1) by (simp add: parseCommand_def)
qed

theorem dash_digit_never_short_option_witness:
  "shell_words ''head -5 notes.txt'' = Inr [Str ''head'', Str ''-5'', Str ''notes.txt'']
   \<and> match_dash_digit ''-5''
   \<and> parseCommand shell_words ''head -5 notes.txt'' =
       Inr [\<lparr>type = Command, value = ''head'', isLongOption = False, isShortOption = False\<rparr>,
            \<lparr>type = Argument, value = ''-5'', isLongOption = False, isShortOption = False\<rparr>,
            \<lparr>type = Argument, value = ''notes.txt'', isLongOption = False, isShortOption = False\<rparr>]"
  using dash_digit_never_short_option [of shell_words "''head -5 notes.txt''"
      "[Str ''head'', Str ''-5'', Str ''notes.txt'']" "''-5''"]
  by (simp add: parseCommand_def shell_words_def is_space_def extend_def flush_def
      push_entry_def startsWith_def is_digit_def is_operator_def)

lemma well_classifiedD:
  "well_classified parts \<Longrightarrow> k < length parts \<Longrightarrow> type (parts ! k) \<noteq> Operator \<Longrightarrow>
   type (parts ! k) =
     (if \<not> is_option (parts ! k) \<and> list_all is_operator (take k parts) then Command else Argument)"
  by (simp add: well_classified_def)

lemma push_entry_cases:
  "push_entry parts e = parts \<or>
   (\<exists>p. push_entry parts e = parts @ [p] \<and>
      (type p \<noteq> Operator \<longrightarrow>
         type p = (if \<not> is_option p \<and> list_all is_operator parts then Command else Argument)))"
  by (cases e) (auto simp: push_entry_def Let_def is_option_def)

lemma well_classified_snoc:
  assumes "well_classified parts"
    and "type p \<noteq> Operator \<longrightarrow>
           type p = (if \<not> is_option p \<and> list_all is_operator parts then Command else Argument)"
  shows "well_classified (parts @ [p])"
  unfolding well_classified_def
proof (intro allI impI)
  fix k
  assume k: "k < length (parts @ [p])" and nop: "type ((parts @ [p]) ! k) \<noteq> Operator"
  show "type ((parts @ [p]) ! k) =
          (if \<not> is_option ((parts @ [p]) ! k) \<and> list_all is_operator (take k (parts @ [p]))
           then Command else Argument)"
  proof (cases "k < length parts")
    case True
    with assms(1) nop show ?thesis by (simp add: well_classified_def nth_append)
  next
    case False
    with k have "k = length parts" by simp
    with assms(2) nop show ?thesis by simp
  qed
qed

lemma push_entry_well_classified:
  "well_classified parts \<Longrightarrow> well_classified (push_entry parts e)"
  using push_entry_cases [of parts e] by (auto intro: well_classified_snoc)

lemma parse_loop_well_classified:
  "well_classified parts \<Longrightarrow> well_classified (parse_loop parts es)"
  by (induction es arbitrary: parts) (simp_all add: push_entry_well_classified)

lemma parseCommand_well_classified:
  assumes "parseCommand parse command = Inr parts"
  shows "well_classified parts"
proof -
  have "well_classified (parse_loop [] es)" for es
    by (rule parse_loop_well_classified) (simp add: well_classified_def)
  with assms show ?thesis by (auto simp: parseCommand_def split: sum.splits)
qed

text \<open>
  C2, as amended.  Let \<open>p\<close> be the first part that is not an operator.  If \<open>p\<close> is a long or
  short option it is an argument, otherwise it is the command; and every part after \<open>p\<close>
  up to the next operator (or the end) is an argument.
\<close>

theorem first_word_is_command:
  assumes "parseCommand parse command = Inr (ops @ p # rest)"
    and "list_all is_operator ops" and "\<not> is_operator p"
  shows "type p = (if isLongOption p \<or> isShortOption p then Argument else Command)
         \<and> (\<forall>q\<in>set (takeWhile (\<lambda>q. \<not> is_operator q) rest). type q = Argument)"
proof -
  let ?parts = "ops @ p # rest"
  have wc: "well_classified ?parts" using assms(1) by (rule parseCommand_well_classified)
  have "type (?parts ! length ops) =
          (if \<not> is_option (?parts ! length ops) \<and> list_all is_operator (take (length ops) ?parts)
           then Command else Argument)"
    using assms(3) by (intro well_classifiedD [OF wc]) (simp_all add: is_operator_def)
  then have first: "type p = (if isLongOption p \<or> isShortOption p then Argument else Command)"
    using assms(2) by (simp add: is_option_def)
  have "type q = Argument" if q: "q \<in> set (takeWhile (\<lambda>q. \<not> is_operator q) rest)" for q
  proof -
    from q have "q \<in> set rest" and nop: "\<not> is_operator q"
      by (auto dest: set_takeWhileD)
    then obtain m where m: "m < length rest" "rest ! m = q" by (auto simp: in_set_conv_nth)
    let ?k = "length ops + Suc m"
    have at: "?parts ! ?k = q" using m by (simp add: nth_append)
    have "p \<in> set (take ?k ?parts)" by simp
    with assms(3) have "\<not> list_all is_operator (take ?k ?parts)"
      unfolding list_all_iff by blast
    moreover have "?k < length ?parts" using m by simp
    ultimately show ?thesis
      using well_classifiedD [OF wc, of ?k] nop at by (simp add: is_operator_def)
  qed
  with first show ?thesis by blast
qed

text \<open>
  C2, as stated, fails on the code: in \<open>ls && pwd\<close> the word after the operator is an
  argument, and in \<open>-v ls\<close> the first part that is not an operator is an argument.
\<close>

theorem chain_invariant_counterexample:
  "parseCommand shell_words ''ls && pwd'' =
     Inr [\<lparr>type = Command, value = ''ls'', isLongOption = False, isShortOption = False\<rparr>,
          \<lparr>type = Operator, value = ''&&'', isLongOption = False, isShortOption = False\<rparr>,
          \<lparr>type = Argument, value = ''pwd'', isLongOption = False, isShortOption = False\<rparr>]
   \<and> \<not> chain_invariant
         [\<lparr>type = Command, value = ''ls'', isLongOption = False, isShortOption = False\<rparr>,
          \<lparr>type = Operator, value = ''&&'', isLongOption = False, isShortOption = False\<rparr>,
          \<lparr>type = Argument, value = ''pwd'', isLongOption = False, isShortOption = False\<rparr>]
   \<and> parseCommand shell_words ''-v ls'' =
     Inr [\<lparr>type = Argument, value = ''-v'', isLongOption = False, isShortOption = True\<rparr>,
          \<lparr>type = Argument, value = ''ls'', isLongOption = False, isShortOption = False\<rparr>]
   \<and> \<not> chain_invariant
         [\<lparr>type = Argument, value = ''-v'', isLongOption = False, isShortOption = True\<rparr>,
          \<lparr>type = Argument, value = ''ls'', isLongOption = False, isShortOption = False\<rparr>]"
  by (simp add: run_tokenizer run_parser chain_invariant_def)

theorem first_word_is_command_witness:
  "parseCommand shell_words ''| ls -l /tmp | wc'' =
     Inr ([\<lparr>type = Operator, value = ''|'', isLongOption = False, isShortOption = False\<rparr>] @
          \<lparr>type = Command, value = ''ls'', isLongOption = False, isShortOption = False\<rparr> #
          [\<lparr>type = Argument, value = ''-l'', isLongOption = False, isShortOption = True\<rparr>,
           \<lparr>type = Argument, value = ''/tmp'', isLongOption = False, isShortOption = False\<rparr>,
           \<lparr>type = Operator, value = ''|'', isLongOption = False, isShortOption = False\<rparr>,
           \<lparr>type = Argument, value = ''wc'', isLongOption = False, isShortOption = False\<rparr>])
   \<and> takeWhile (\<lambda>q. \<not> is_operator q)
         [\<lparr>type = Argument, value = ''-l'', isLongOption = False, isShortOption = True\<rparr>,
          \<lparr>type = Argument, value = ''/tmp'', isLongOption = False, isShortOption = False\<rparr>,
          \<lparr>type = Operator, value = ''|'', isLongOption = False, isShortOption = False\<rparr>,
          \<lparr>type = Argument, value = ''wc'', isLongOption = False, isShortOption = False\<rparr>]
       = [\<lparr>type = Argument, value = ''-l'', isLongOption = False, isShortOption = True\<rparr>,
          \<lparr>type = Argument, value = ''/tmp'', isLongOption = False, isShortOption = False\<rparr>]"
  using first_word_is_command [of shell_words "''| ls -l /tmp | wc''"
      "[\<lparr>type = Operator, value = ''|'', isLongOption = False, isShortOption = False\<rparr>]"
      "\<lparr>type = Command, value = ''ls'', isLongOption = False, isShortOption = False\<rparr>"
      "[\<lparr>type = Argument, value = ''-l'', isLongOption = False, isShortOption = True\<rparr>,
        \<lparr>type = Argument, value = ''/tmp'', isLongOption = False, isShortOption = False\<rparr>,
        \<lparr>type = Operator, value = ''|'', isLongOption = False, isShortOption = False\<rparr>,
        \<lparr>type = Argument, value = ''wc'', isLongOption = False, isShortOption = False\<rparr>]"]
  by (simp add: run_tokenizer run_parser)

section \<open>The decision helper and the preview\<close>

lemma startsWith_iff: "startsWith s n \<longleftrightarrow> (\<exists>v. s = n @ v)"
  unfolding startsWith_def by (metis append_eq_conv_conj append_take_drop_id)

lemma str_includes_iff: "str_includes s n \<longleftrightarrow> (\<exists>u v. s = u @ n @ v)"
proof (induction s)
  case Nil
  show ?case by auto
next
  case (Cons c cs)
  show ?case
  proof
    assume "str_includes (c # cs) n"
    then consider "startsWith (c # cs) n" | "str_includes cs n" by auto
    then show "\<exists>u v. c # cs = u @ n @ v"
    proof cases
      case 1
      then obtain v where "c # cs = n @ v" by (auto simp: startsWith_iff)
      then have "c # cs = [] @ n @ v" by simp
      then show ?thesis by blast
    next
      case 2
      with Cons.IH obtain u v where "cs = u @ n @ v" by blast
      then have "c # cs = (c # u) @ n @ v" by simp
      then show ?thesis by blast
    qed
  next
    assume "\<exists>u v. c # cs = u @ n @ v"
    then obtain u v where uv: "c # cs = u @ n @ v" by blast
    show "str_includes (c # cs) n"
    proof (cases u)
      case Nil
      with uv have "startsWith (c # cs) n" unfolding startsWith_iff by auto
      then show ?thesis by simp
    next
      case (Cons d u')
      with uv have "cs = u' @ n @ v" by simp
      with Cons.IH show ?thesis by auto
    qed
  qed
qed

lemma not_word_dash: "\<not> is_word (CHR ''-'')"
  by (simp add: is_word_def)

lemma long_option_starts_Nil: "long_option_starts [] = {}"
  by (simp add: long_option_starts_def)

lemma starts_long_nth:
  "starts_long s \<longleftrightarrow> 2 < length s \<and> s ! 0 = CHR ''-'' \<and> s ! 1 = CHR ''-'' \<and> is_word (s ! 2)"
  by (cases s rule: starts_long.cases) simp_all

lemma long_option_starts_Cons:
  "long_option_starts (a # s) =
     (if starts_long (a # s) then {0} else {}) \<union> Suc ` long_option_starts s"
proof (intro set_eqI iffI)
  fix i
  assume i: "i \<in> long_option_starts (a # s)"
  show "i \<in> (if starts_long (a # s) then {0} else {}) \<union> Suc ` long_option_starts s"
  proof (cases i)
    case 0
    with i show ?thesis by (simp add: long_option_starts_def starts_long_nth)
  next
    case (Suc j)
    with i have "j \<in> long_option_starts s" by (simp add: long_option_starts_def)
    with Suc show ?thesis by blast
  qed
next
  fix i
  assume "i \<in> (if starts_long (a # s) then {0} else {}) \<union> Suc ` long_option_starts s"
  then consider "starts_long (a # s)" "i = 0" | j where "i = Suc j" "j \<in> long_option_starts s"
    by (auto split: if_splits)
  then show "i \<in> long_option_starts (a # s)"
  proof cases
    case 1
    then show ?thesis by (simp add: long_option_starts_def starts_long_nth)
  next
    case 2
    then show ?thesis by (simp add: long_option_starts_def)
  qed
qed

lemma finite_long_option_starts: "finite (long_option_starts s)"
proof -
  have "long_option_starts s \<subseteq> {..<length s}" by (auto simp: long_option_starts_def)
  then show ?thesis by (rule finite_subset) simp
qed

lemma count_starts_card: "count_starts s = card (long_option_starts s)"
proof (induction s)
  case Nil
  show ?case by (simp add: long_option_starts_Nil)
next
  case (Cons a s)
  have fin: "finite (Suc ` long_option_starts s)" by (simp add: finite_long_option_starts)
  have inj: "card (Suc ` long_option_starts s) = card (long_option_starts s)"
    by (simp add: card_image)
  have notin: "0 \<notin> Suc ` long_option_starts s" by auto
  show ?case
  proof (cases "starts_long (a # s)")
    case True
    then have "long_option_starts (a # s) = insert 0 (Suc ` long_option_starts s)"
      by (simp add: long_option_starts_Cons)
    then have "card (long_option_starts (a # s)) = Suc (card (long_option_starts s))"
      using fin notin inj by simp
    with True Cons.IH show ?thesis by simp
  next
    case False
    then have "long_option_starts (a # s) = Suc ` long_option_starts s"
      by (simp add: long_option_starts_Cons)
    with False Cons.IH inj show ?thesis by simp
  qed
qed

lemma count_starts_dropWhile: "count_starts (dropWhile is_word s) = count_starts s"
proof (induction s)
  case Nil
  show ?case by simp
next
  case (Cons a s)
  show ?case
  proof (cases "is_word a")
    case True
    then have "a \<noteq> CHR ''-''" using not_word_dash by auto
    then have "\<not> starts_long (a # s)" by (simp add: starts_long_nth)
    with True Cons.IH show ?thesis by simp
  next
    case False
    then show ?thesis by simp
  qed
qed

lemma count_long_options_starts: "count_long_options s = count_starts s"
proof (induction s rule: count_long_options.induct)
  case (4 a b c cs)
  show ?case
  proof (cases "a = CHR ''-'' \<and> b = CHR ''-'' \<and> is_word c")
    case True
    then have "c \<noteq> CHR ''-''" using not_word_dash by auto
    then have nb: "\<not> starts_long (b # c # cs)" by (simp add: starts_long_nth)
    from True have "count_starts (c # cs) = count_starts (dropWhile is_word cs)"
      using count_starts_dropWhile [of "c # cs"] by simp
    moreover have "count_starts (a # b # c # cs) = 1 + count_starts (c # cs)"
      using True nb by simp
    moreover have "count_long_options (a # b # c # cs) = 1 + count_starts (dropWhile is_word cs)"
      using True "4.IH"(1) by simp
    ultimately show ?thesis by simp
  next
    case False
    then have "count_long_options (a # b # c # cs) = count_starts (b # c # cs)"
      using "4.IH"(2) by auto
    moreover have "count_starts (a # b # c # cs) = count_starts (b # c # cs)"
      using False by auto
    ultimately show ?thesis by simp
  qed
qed simp_all

lemma count_long_options_card: "count_long_options s = card (long_option_starts s)"
  by (simp add: count_long_options_starts count_starts_card)

text \<open>
  C3.  \<open>shouldPrettifyCommand\<close> holds exactly when the command is longer than the threshold
  (80 when absent), or contains \<open>&&\<close>, \<open>||\<close>, \<open>;\<close> or \<open>|\<close> as a substring, or has more than
  three places where two dashes are followed by a word character (each match of the
  pattern starts at one such place, and no two matches overlap).  The four examples of
  the specification evaluate as it says.
\<close>

theorem shouldPrettify_iff:
  "(shouldPrettifyCommand command t \<longleftrightarrow>
      int (length command) > (case t of None \<Rightarrow> 80 | Some n \<Rightarrow> n)
      \<or> (\<exists>u v. command = u @ ''&&'' @ v)
      \<or> (\<exists>u v. command = u @ ''||'' @ v)
      \<or> (\<exists>u v. command = u @ '';'' @ v)
      \<or> (\<exists>u v. command = u @ ''|'' @ v)
      \<or> card (long_option_starts command) > 3)
   \<and> \<not> shouldPrettifyCommand ''ls -la'' None
   \<and> shouldPrettifyCommand ''npm run build && npm run test'' None
   \<and> shouldPrettifyCommand ''cmd --a --b --c --d'' None
   \<and> \<not> shouldPrettifyCommand ''cmd --a --b --c'' None"
proof -
  have "shouldPrettifyCommand command t \<longleftrightarrow>
      int (length command) > (case t of None \<Rightarrow> 80 | Some n \<Rightarrow> n)
      \<or> (\<exists>u v. command = u @ ''&&'' @ v)
      \<or> (\<exists>u v. command = u @ ''||'' @ v)
      \<or> (\<exists>u v. command = u @ '';'' @ v)
      \<or> (\<exists>u v. command = u @ ''|'' @ v)
      \<or> card (long_option_starts command) > 3"
    unfolding shouldPrettifyCommand_def Let_def str_includes_iff count_long_options_card ..
  moreover have "\<not> shouldPrettifyCommand ''ls -la'' None"
    by (simp add: shouldPrettifyCommand_def startsWith_def is_word_def)
  moreover have "shouldPrettifyCommand ''npm run build && npm run test'' None"
    by (simp add: shouldPrettifyCommand_def startsWith_def is_word_def)
  moreover have "shouldPrettifyCommand ''cmd --a --b --c --d'' None"
    by (simp add: shouldPrettifyCommand_def startsWith_def is_word_def)
  moreover have "\<not> shouldPrettifyCommand ''cmd --a --b --c'' None"
    by (simp add: shouldPrettifyCommand_def startsWith_def is_word_def)
  ultimately show ?thesis by blast
qed

theorem shouldPrettify_iff_witness:
  "shouldPrettifyCommand ''cmd --a --b --c --d'' (Some 80)
   \<and> card (long_option_starts ''cmd --a --b --c --d'') = 4"
proof -
  have "shouldPrettifyCommand ''cmd --a --b --c --d'' (Some 80)"
    using shouldPrettify_iff [of "''cmd --a --b --c --d''" "Some 80"]
    by (simp add: shouldPrettifyCommand_def startsWith_def is_word_def)
  moreover have "card (long_option_starts ''cmd --a --b --c --d'') = 4"
    unfolding count_long_options_card [symmetric] by (simp add: is_word_def)
  ultimately show ?thesis by simp
qed

lemma prettifyCommand_resolve:
  "resolve options = resolve options' \<Longrightarrow>
   prettifyCommand parse chalk command options = prettifyCommand parse chalk command options'"
  by (simp add: prettifyCommand_def)

text \<open>
  C8.  \<open>getCommandPreview\<close> returns the command in \<open>original\<close> and the value of
  \<open>shouldPrettifyCommand\<close> (at the preview's \<open>maxWidth\<close>) in \<open>shouldPrettify\<close>; \<open>pretty\<close> is
  the result of \<open>prettifyCommand\<close> under the same four layout options when \<open>showPretty\<close> is
  true and the decision is true, and is absent otherwise.
\<close>

theorem preview_fields:
  "original (getCommandPreview parse chalk command options) = command
   \<and> shouldPrettify (getCommandPreview parse chalk command options) =
       shouldPrettifyCommand command (Some (case maxWidth options of None \<Rightarrow> 80 | Some w \<Rightarrow> w))
   \<and> pretty (getCommandPreview parse chalk command options) =
       (if showPretty options = Some True
           \<and> shouldPrettifyCommand command (Some (case maxWidth options of None \<Rightarrow> 80 | Some w \<Rightarrow> w))
        then Some (prettifyCommand parse chalk command (PrettifyOptions.truncate options))
        else None)"
proof -
  let ?filled = "\<lparr>maxWidth = Some (case maxWidth options of None \<Rightarrow> 80 | Some w \<Rightarrow> w),
                  indent = Some (case indent options of None \<Rightarrow> ''  '' | Some s \<Rightarrow> s),
                  flagsOnNewLine = Some (case flagsOnNewLine options of None \<Rightarrow> False | Some b \<Rightarrow> b),
                  disableColors = Some (case disableColors options of None \<Rightarrow> False | Some b \<Rightarrow> b)\<rparr>"
  have "resolve ?filled = resolve (PrettifyOptions.truncate options)"
    by (simp add: resolve_def PrettifyOptions.truncate_def)
  then have "prettifyCommand parse chalk command ?filled =
             prettifyCommand parse chalk command (PrettifyOptions.truncate options)"
    by (rule prettifyCommand_resolve)
  moreover have "(case showPretty options of None \<Rightarrow> False | Some b \<Rightarrow> b) \<longleftrightarrow> showPretty options = Some True"
    by (simp split: option.splits)
  ultimately show ?thesis by (simp add: getCommandPreview_def Let_def)
qed

theorem preview_fields_witness:
  "getCommandPreview shell_words plain_chalk ''ls | wc''
     \<lparr>maxWidth = Some 5, indent = None, flagsOnNewLine = None, disableColors = None,
      showPretty = Some True\<rparr>
   = \<lparr>original = ''ls | wc'',
      pretty = Some (prettifyCommand shell_words plain_chalk ''ls | wc''
                 \<lparr>maxWidth = Some 5, indent = None, flagsOnNewLine = None, disableColors = None\<rparr>),
      shouldPrettify = True\<rparr>
   \<and> getCommandPreview shell_words plain_chalk ''ls | wc''
     \<lparr>maxWidth = Some 5, indent = None, flagsOnNewLine = None, disableColors = None,
      showPretty = None\<rparr>
   = \<lparr>original = ''ls | wc'', pretty = None, shouldPrettify = True\<rparr>"
  using preview_fields [of shell_words plain_chalk "''ls | wc''"
      "\<lparr>maxWidth = Some 5, indent = None, flagsOnNewLine = None, disableColors = None,
        showPretty = Some True\<rparr>"]
    preview_fields [of shell_words plain_chalk "''ls | wc''"
      "\<lparr>maxWidth = Some 5, indent = None, flagsOnNewLine = None, disableColors = None,
        showPretty = None\<rparr>"]
  by (simp add: shouldPrettifyCommand_def PrettifyOptions.truncate_def CommandPreview.equality)

section \<open>The layout loop\<close>

lemma loop_body_operator:
  "type (parts ! j) = Operator \<Longrightarrow>
   loop_body chalk cfg parts j st =
     (operator_step (value (parts ! j)) (render chalk cfg (parts ! j)) st, j)"
  by (simp add: loop_body_def Let_def)

lemma loop_body_skip:
  assumes "i < length parts" and "snd (loop_body chalk cfg parts i st) \<noteq> i"
  shows "snd (loop_body chalk cfg parts i st) = i + 1 \<and> i + 1 < length parts
         \<and> \<not> cfg_flagsOnNewLine cfg
         \<and> type (parts ! (i + 1)) = Argument \<and> \<not> is_option (parts ! (i + 1))"
  using assms by (auto simp: loop_body_def Let_def is_option_def split: if_splits)

lemma loop_heads_reached:
  "(j, st') \<in> set (loop_heads chalk cfg parts i st) \<Longrightarrow>
   j < length parts \<and> layout_loop chalk cfg parts i st = layout_loop chalk cfg parts j st'"
proof (induction chalk cfg parts i st rule: loop_heads.induct)
  case (1 chalk cfg parts i st)
  show ?case
  proof (cases "i < length parts")
    case False
    with "1.prems" show ?thesis by (simp add: loop_heads.simps)
  next
    case True
    let ?b = "loop_body chalk cfg parts i st"
    from "1.prems" True consider "j = i" "st' = st"
      | "(j, st') \<in> set (loop_heads chalk cfg parts (snd ?b + 1) (fst ?b))"
      by (subst (asm) loop_heads.simps) auto
    then show ?thesis
    proof cases
      case 1
      with True show ?thesis by simp
    next
      case 2
      from "1.IH" [OF True 2]
      have "j < length parts"
        and "layout_loop chalk cfg parts (snd ?b + 1) (fst ?b) = layout_loop chalk cfg parts j st'"
        by simp_all
      moreover have "layout_loop chalk cfg parts i st = layout_loop chalk cfg parts (snd ?b + 1) (fst ?b)"
        using True by (subst layout_loop.simps) simp
      ultimately show ?thesis by simp
    qed
  qed
qed

lemma loop_heads_visits:
  assumes "i \<le> j" and "j < length parts"
    and "cfg_flagsOnNewLine cfg \<or> type (parts ! j) \<noteq> Argument \<or> is_option (parts ! j)"
  shows "\<exists>st'. (j, st') \<in> set (loop_heads chalk cfg parts i st)"
  using assms
proof (induction chalk cfg parts i st rule: loop_heads.induct)
  case (1 chalk cfg parts i st)
  let ?b = "loop_body chalk cfg parts i st"
  from "1.prems" have i: "i < length parts" by simp
  have unfold: "loop_heads chalk cfg parts i st =
                  (i, st) # loop_heads chalk cfg parts (snd ?b + 1) (fst ?b)"
    using i by (subst loop_heads.simps) simp
  show ?case
  proof (cases "i = j")
    case True
    with unfold show ?thesis by auto
  next
    case False
    have "snd ?b + 1 \<le> j"
    proof (cases "snd ?b = i")
      case True
      with False "1.prems"(1) show ?thesis by simp
    next
      case skip: False
      from loop_body_skip [OF i skip]
      have s: "snd ?b = i + 1" "\<not> cfg_flagsOnNewLine cfg"
        "type (parts ! (i + 1)) = Argument" "\<not> is_option (parts ! (i + 1))"
        by simp_all
      with "1.prems"(3) have "j \<noteq> i + 1" by auto
      with False "1.prems"(1) s(1) show ?thesis by simp
    qed
    from "1.IH" [OF i this "1.prems"(2,3)] unfold show ?thesis by auto
  qed
qed

lemma prefix_result_body:
  "prefix (result st) (result (fst (loop_body chalk cfg parts i st)))"
  by (simp add: loop_body_def Let_def operator_step_def place_argument_def break_line_def)

lemma prefix_result_loop:
  "prefix (result st) (result (layout_loop chalk cfg parts i st))"
proof (induction chalk cfg parts i st rule: layout_loop.induct)
  case (1 chalk cfg parts i st)
  show ?case
  proof (cases "i < length parts")
    case True
    let ?b = "loop_body chalk cfg parts i st"
    have "prefix (result st) (result (fst ?b))" by (rule prefix_result_body)
    also have "prefix (result (fst ?b)) (result (layout_loop chalk cfg parts (snd ?b + 1) (fst ?b)))"
      using "1.IH" [OF True] .
    also have "layout_loop chalk cfg parts (snd ?b + 1) (fst ?b) = layout_loop chalk cfg parts i st"
      using True by (subst (2) layout_loop.simps) simp
    finally show ?thesis .
  next
    case False
    then show ?thesis by (subst layout_loop.simps) simp
  qed
qed

lemma prefix_final_push: "prefix (result st) (final_push st)"
  by (simp add: final_push_def)

lemma layout_lines_from:
  assumes "(j, st) \<in> set (loop_heads chalk cfg parts 0 initial_state)"
  shows "layout_lines chalk cfg parts =
         final_push (layout_loop chalk cfg parts (snd (loop_body chalk cfg parts j st) + 1)
                       (fst (loop_body chalk cfg parts j st)))"
proof -
  from loop_heads_reached [OF assms]
  have j: "j < length parts"
    and eq: "layout_loop chalk cfg parts 0 initial_state = layout_loop chalk cfg parts j st"
    by simp_all
  have "layout_loop chalk cfg parts j st =
        layout_loop chalk cfg parts (snd (loop_body chalk cfg parts j st) + 1)
          (fst (loop_body chalk cfg parts j st))"
    using j by (subst layout_loop.simps) simp
  with eq show ?thesis by (simp add: layout_lines_def)
qed

lemma emitted_lines_stay:
  assumes "(j, st) \<in> set (loop_heads chalk cfg parts 0 initial_state)"
  shows "prefix (result (fst (loop_body chalk cfg parts j st))) (layout_lines chalk cfg parts)"
proof -
  let ?b = "loop_body chalk cfg parts j st"
  have "prefix (result (fst ?b)) (result (layout_loop chalk cfg parts (snd ?b + 1) (fst ?b)))"
    by (rule prefix_result_loop)
  also have "prefix \<dots> (final_push (layout_loop chalk cfg parts (snd ?b + 1) (fst ?b)))"
    by (rule prefix_final_push)
  also have "\<dots> = layout_lines chalk cfg parts"
    using layout_lines_from [OF assms] by simp
  finally show ?thesis .
qed

lemma prettifyCommand_layout:
  assumes "parseCommand parse command = Inr parts" and "parts \<noteq> []"
    and "int (length command) > cfg_maxWidth (resolve options)"
  shows "prettifyCommand parse chalk command options =
         join newline (layout_lines chalk (resolve options) parts)"
  using assms by (simp add: prettifyCommand_def finish_def layout_lines_def)

lemmas run_layout = prettifyCommand_def resolve_def no_options_def finish_def final_push_def
  initial_state_def layout_loop.simps loop_body_def Let_def render_def operator_step_def
  place_argument_def break_line_def trim_def continuation_def backslash_def newline_def
  layout_lines_def applyHighlighting_def plain_chalk_def

text \<open>
  C5.  In the layout of a command longer than \<open>maxWidth\<close> the loop body runs at every
  operator part (the look-ahead never skips one).  There, for \<open>&&\<close>, \<open>||\<close> and \<open>|\<close> the
  current line followed by a space and the operator is pushed and the current line
  becomes empty; for \<open>;\<close> the same without the space; for any other operator the space
  and the operator are appended to the current line and nothing is pushed.  The index is
  left as it is, and the lines pushed so far stay the first lines of the output.
\<close>

theorem operator_layout:
  assumes "parseCommand parse command = Inr parts"
    and "int (length command) > cfg_maxWidth (resolve options)"
    and "j < length parts" and "type (parts ! j) = Operator"
  shows "prettifyCommand parse chalk command options =
           join newline (layout_lines chalk (resolve options) parts)
         \<and> (\<exists>st. (j, st) \<in> set (loop_heads chalk (resolve options) parts 0 initial_state)
              \<and> loop_body chalk (resolve options) parts j st =
                  (if value (parts ! j) \<in> {''&&'', ''||'', ''|''} then
                     \<lparr>result = result st @
                        [currentLine st @ '' '' @ render chalk (resolve options) (parts ! j)],
                      currentLine = []\<rparr>
                   else if value (parts ! j) = '';'' then
                     \<lparr>result = result st @
                        [currentLine st @ render chalk (resolve options) (parts ! j)],
                      currentLine = []\<rparr>
                   else
                     \<lparr>result = result st,
                      currentLine =
                        currentLine st @ '' '' @ render chalk (resolve options) (parts ! j)\<rparr>,
                   j)
              \<and> prefix (result (fst (loop_body chalk (resolve options) parts j st)))
                   (layout_lines chalk (resolve options) parts))"
proof -
  let ?cfg = "resolve options"
  from assms(3) have ne: "parts \<noteq> []" by auto
  have out: "prettifyCommand parse chalk command options = join newline (layout_lines chalk ?cfg parts)"
    using assms(1) ne assms(2) by (rule prettifyCommand_layout)
  obtain st where st: "(j, st) \<in> set (loop_heads chalk ?cfg parts 0 initial_state)"
    using loop_heads_visits [of 0 j parts ?cfg chalk initial_state] assms(3,4) by auto
  have "loop_body chalk ?cfg parts j st =
          (operator_step (value (parts ! j)) (render chalk ?cfg (parts ! j)) st, j)"
    using assms(4) by (rule loop_body_operator)
  then have eff: "loop_body chalk ?cfg parts j st =
                  (if value (parts ! j) \<in> {''&&'', ''||'', ''|''} then
                     \<lparr>result = result st @ [currentLine st @ '' '' @ render chalk ?cfg (parts ! j)],
                      currentLine = []\<rparr>
                   else if value (parts ! j) = '';'' then
                     \<lparr>result = result st @ [currentLine st @ render chalk ?cfg (parts ! j)],
                      currentLine = []\<rparr>
                   else
                     \<lparr>result = result st,
                      currentLine = currentLine st @ '' '' @ render chalk ?cfg (parts ! j)\<rparr>,
                   j)"
    by (simp add: operator_step_def)
  have "prefix (result (fst (loop_body chalk ?cfg parts j st))) (layout_lines chalk ?cfg parts)"
    using st by (rule emitted_lines_stay)
  with out st eff show ?thesis by blast
qed

theorem operator_layout_witness:
  "parseCommand shell_words ''ls | wc'' =
     Inr [\<lparr>type = Command, value = ''ls'', isLongOption = False, isShortOption = False\<rparr>,
          \<lparr>type = Operator, value = ''|'', isLongOption = False, isShortOption = False\<rparr>,
          \<lparr>type = Argument, value = ''wc'', isLongOption = False, isShortOption = False\<rparr>]
   \<and> int (length ''ls | wc'') > cfg_maxWidth (resolve (no_options\<lparr>maxWidth := Some 5\<rparr>))
   \<and> loop_heads plain_chalk (resolve (no_options\<lparr>maxWidth := Some 5\<rparr>))
        [\<lparr>type = Command, value = ''ls'', isLongOption = False, isShortOption = False\<rparr>,
         \<lparr>type = Operator, value = ''|'', isLongOption = False, isShortOption = False\<rparr>,
         \<lparr>type = Argument, value = ''wc'', isLongOption = False, isShortOption = False\<rparr>]
        0 initial_state =
       [(0, \<lparr>result = [], currentLine = []\<rparr>),
        (1, \<lparr>result = [], currentLine = ''ls''\<rparr>),
        (2, \<lparr>result = [''ls |''], currentLine = []\<rparr>)]
   \<and> prettifyCommand shell_words plain_chalk ''ls | wc'' (no_options\<lparr>maxWidth := Some 5\<rparr>) =
       ''ls |'' @ newline @ '' wc''"
  using operator_layout [of shell_words "''ls | wc''"
      "[\<lparr>type = Command, value = ''ls'', isLongOption = False, isShortOption = False\<rparr>,
        \<lparr>type = Operator, value = ''|'', isLongOption = False, isShortOption = False\<rparr>,
        \<lparr>type = Argument, value = ''wc'', isLongOption = False, isShortOption = False\<rparr>]"
      "no_options\<lparr>maxWidth := Some 5\<rparr>" 1 plain_chalk]
  by (simp add: run_tokenizer run_parser run_layout loop_heads.simps)

lemma extends_refl: "extends st st"
  by (simp add: extends_def)

lemma extends_trans:
  assumes "extends a b" and "extends b c"
  shows "extends a c"
proof -
  from assms(1) consider
      (same) "result b = result a" "prefix (currentLine a) (currentLine b)"
    | (more) l more where "result b = result a @ l # more" "prefix (currentLine a) l"
    unfolding extends_def by blast
  then show ?thesis
  proof cases
    case same
    from assms(2) consider
        (same2) "result c = result b" "prefix (currentLine b) (currentLine c)"
      | (more2) l more where "result c = result b @ l # more" "prefix (currentLine b) l"
      unfolding extends_def by blast
    then show ?thesis
    proof cases
      case same2
      with same have "result c = result a" "prefix (currentLine a) (currentLine c)"
        by (auto intro: prefix_order.trans)
      then show ?thesis by (simp add: extends_def)
    next
      case more2
      with same have "result c = result a @ l # more" "prefix (currentLine a) l"
        by (auto intro: prefix_order.trans)
      then show ?thesis unfolding extends_def by blast
    qed
  next
    case more
    from assms(2) obtain rest where "result c = result b @ rest"
      unfolding extends_def by auto
    with more have "result c = result a @ l # (more @ rest)" by simp
    with more(2) show ?thesis unfolding extends_def by blast
  qed
qed

lemma extends_append: "extends st (st\<lparr>currentLine := currentLine st @ s\<rparr>)"
  by (simp add: extends_def)

lemma extends_break: "extends st (break_line cfg st v)"
  unfolding extends_def break_line_def by auto

lemma extends_place_argument: "extends st (place_argument cfg part v st)"
  by (simp add: place_argument_def Let_def extends_append extends_break)

lemma extends_operator_step: "extends st (operator_step v pv st)"
  unfolding operator_step_def extends_def by auto

lemma extends_body:
  assumes "type (parts ! i) \<noteq> Command"
  shows "extends st (fst (loop_body chalk cfg parts i st))"
proof (cases "type (parts ! i) = Operator")
  case True
  then show ?thesis by (simp add: loop_body_operator extends_operator_step)
next
  case False
  let ?st1 = "place_argument cfg (parts ! i) (render chalk cfg (parts ! i)) st"
  have 1: "extends st ?st1" by (rule extends_place_argument)
  have "fst (loop_body chalk cfg parts i st) = ?st1
        \<or> (\<exists>v. fst (loop_body chalk cfg parts i st) = break_line cfg ?st1 v)"
    using assms False by (auto simp: loop_body_def Let_def)
  then show ?thesis
  proof
    assume "fst (loop_body chalk cfg parts i st) = ?st1"
    with 1 show ?thesis by simp
  next
    assume "\<exists>v. fst (loop_body chalk cfg parts i st) = break_line cfg ?st1 v"
    then obtain v where v: "fst (loop_body chalk cfg parts i st) = break_line cfg ?st1 v" ..
    have "extends ?st1 (break_line cfg ?st1 v)" by (rule extends_break)
    with 1 v show ?thesis by (auto intro: extends_trans)
  qed
qed

lemma loop_body_index: "i \<le> snd (loop_body chalk cfg parts i st)"
  by (simp add: loop_body_def Let_def)

lemma extends_loop:
  assumes "\<forall>k. i \<le> k \<and> k < length parts \<longrightarrow> type (parts ! k) \<noteq> Command"
  shows "extends st (layout_loop chalk cfg parts i st)"
  using assms
proof (induction chalk cfg parts i st rule: layout_loop.induct)
  case (1 chalk cfg parts i st)
  show ?case
  proof (cases "i < length parts")
    case True
    let ?b = "loop_body chalk cfg parts i st"
    have "type (parts ! i) \<noteq> Command" using "1.prems" True by simp
    then have a: "extends st (fst ?b)" by (rule extends_body)
    have "\<forall>k. snd ?b + 1 \<le> k \<and> k < length parts \<longrightarrow> type (parts ! k) \<noteq> Command"
      using "1.prems" loop_body_index [of i chalk cfg parts st] by auto
    from "1.IH" [OF True this]
    have b: "extends (fst ?b) (layout_loop chalk cfg parts (snd ?b + 1) (fst ?b))" .
    have "layout_loop chalk cfg parts i st = layout_loop chalk cfg parts (snd ?b + 1) (fst ?b)"
      using True by (subst layout_loop.simps) simp
    with a b show ?thesis by (auto intro: extends_trans)
  next
    case False
    then show ?thesis by (subst layout_loop.simps) (simp add: extends_refl)
  qed
qed

lemma extends_final_push:
  assumes "extends st st'" and "currentLine st \<noteq> []"
  shows "\<exists>l more. final_push st' = result st @ l # more \<and> prefix (currentLine st) l"
proof -
  from assms(1) consider
      (same) "result st' = result st" "prefix (currentLine st) (currentLine st')"
    | (more) l more where "result st' = result st @ l # more" "prefix (currentLine st) l"
    unfolding extends_def by blast
  then show ?thesis
  proof cases
    case same
    with assms(2) have "currentLine st' \<noteq> []" by auto
    with same have "final_push st' = result st @ currentLine st' # []" by (simp add: final_push_def)
    with same(2) show ?thesis by blast
  next
    case more
    then have "final_push st' = result st @ l # more
               \<or> final_push st' = result st @ l # (more @ [currentLine st'])"
      by (simp add: final_push_def)
    with more(2) show ?thesis by blast
  qed
qed

lemma push_entry_options_are_arguments:
  "options_are_arguments parts \<Longrightarrow> options_are_arguments (push_entry parts e)"
  by (cases e) (auto simp: options_are_arguments_def push_entry_def Let_def is_option_def)

lemma parse_loop_options_are_arguments:
  "options_are_arguments parts \<Longrightarrow> options_are_arguments (parse_loop parts es)"
  by (induction es arbitrary: parts) (simp_all add: push_entry_options_are_arguments)

lemma parseCommand_option_type:
  assumes "parseCommand parse command = Inr parts" and "j < length parts"
    and "is_option (parts ! j)"
  shows "type (parts ! j) = Argument"
proof -
  have "options_are_arguments (parse_loop [] es)" for es
    by (rule parse_loop_options_are_arguments) (simp add: options_are_arguments_def)
  with assms(1) have "options_are_arguments parts"
    by (auto simp: parseCommand_def split: sum.splits)
  with assms(2,3) show ?thesis by (simp add: options_are_arguments_def)
qed

lemma no_command_after_word:
  assumes "well_classified parts" and "type (parts ! j) \<noteq> Operator"
    and "j < k" and "k < length parts"
  shows "type (parts ! k) \<noteq> Command"
proof
  assume c: "type (parts ! k) = Command"
  then have "type (parts ! k) \<noteq> Operator" by simp
  from well_classifiedD [OF assms(1,4) this] c
  have "list_all is_operator (take k parts)" by (simp split: if_splits)
  moreover have "parts ! j \<in> set (take k parts)"
    using assms(3,4) by (metis in_set_conv_nth length_take min.absorb2 nth_take order_less_imp_le)
  ultimately have "is_operator (parts ! j)" by (simp add: list_all_iff)
  with assms(2) show False by (simp add: is_operator_def)
qed

lemma flag_line_ok_append:
  "suffix marker l1 \<Longrightarrow> prefix start l2 \<Longrightarrow> flag_line_ok marker start (pre @ l1 # l2 # post)"
proof (induction pre)
  case Nil
  then show ?case by simp
next
  case (Cons a pre)
  then have "flag_line_ok marker start (pre @ l1 # l2 # post)" by simp
  then show ?case by (cases "pre @ l1 # l2 # post") auto
qed

lemma loop_body_flag:
  assumes "type (parts ! j) = Argument" and "is_option (parts ! j)" and "cfg_flagsOnNewLine cfg"
  shows "loop_body chalk cfg parts j st =
           (if trim (currentLine st) \<noteq> [] then
              \<lparr>result = result st @ [currentLine st @ continuation],
               currentLine = cfg_indent cfg @ render chalk cfg (parts ! j)\<rparr>
            else
              \<lparr>result = result st,
               currentLine = currentLine st @ '' '' @ render chalk cfg (parts ! j)\<rparr>, j)"
  using assms by (simp add: loop_body_def Let_def place_argument_def break_line_def is_option_def)

text \<open>
  C6, as amended.  With \<open>flagsOnNewLine\<close> and a command longer than \<open>maxWidth\<close>, the loop
  body runs at every long or short option.  When the current line has visible content
  there, it is pushed with the continuation marker and the new current line is the indent
  and the rendered option; in the output these are two consecutive lines, the second one
  beginning with the indent and the option.  When the current line is empty or blank, the
  option is appended to it after a space and nothing is pushed.
\<close>

theorem flag_on_new_line:
  assumes "parseCommand parse command = Inr parts"
    and "int (length command) > cfg_maxWidth (resolve options)"
    and "cfg_flagsOnNewLine (resolve options)"
    and "j < length parts"
    and "isLongOption (parts ! j) \<or> isShortOption (parts ! j)"
    and "render chalk (resolve options) (parts ! j) \<noteq> []"
  shows "prettifyCommand parse chalk command options =
           join newline (layout_lines chalk (resolve options) parts)
         \<and> (\<exists>st. (j, st) \<in> set (loop_heads chalk (resolve options) parts 0 initial_state)
              \<and> (if trim (currentLine st) \<noteq> [] then
                    loop_body chalk (resolve options) parts j st =
                      (\<lparr>result = result st @ [currentLine st @ continuation],
                        currentLine = cfg_indent (resolve options)
                                        @ render chalk (resolve options) (parts ! j)\<rparr>, j)
                    \<and> (\<exists>l more. layout_lines chalk (resolve options) parts =
                                   result st @ (currentLine st @ continuation) # l # more
                          \<and> prefix (cfg_indent (resolve options)
                                      @ render chalk (resolve options) (parts ! j)) l)
                    \<and> flag_line_ok continuation
                         (cfg_indent (resolve options) @ render chalk (resolve options) (parts ! j))
                         (layout_lines chalk (resolve options) parts)
                  else
                    loop_body chalk (resolve options) parts j st =
                      (\<lparr>result = result st,
                        currentLine = currentLine st @ '' ''
                                        @ render chalk (resolve options) (parts ! j)\<rparr>, j)))"
proof -
  let ?cfg = "resolve options"
  let ?pv = "render chalk ?cfg (parts ! j)"
  let ?lines = "layout_lines chalk ?cfg parts"
  from assms(4) have ne: "parts \<noteq> []" by auto
  have out: "prettifyCommand parse chalk command options = join newline ?lines"
    using assms(1) ne assms(2) by (rule prettifyCommand_layout)
  have opt: "is_option (parts ! j)" using assms(5) by (simp add: is_option_def)
  have arg: "type (parts ! j) = Argument"
    using assms(1,4) opt by (rule parseCommand_option_type)
  have wc: "well_classified parts" using assms(1) by (rule parseCommand_well_classified)
  obtain st where st: "(j, st) \<in> set (loop_heads chalk ?cfg parts 0 initial_state)"
    using loop_heads_visits [of 0 j parts ?cfg chalk initial_state] assms(3,4) by auto
  have body: "loop_body chalk ?cfg parts j st =
           (if trim (currentLine st) \<noteq> [] then
              \<lparr>result = result st @ [currentLine st @ continuation],
               currentLine = cfg_indent ?cfg @ ?pv\<rparr>
            else
              \<lparr>result = result st, currentLine = currentLine st @ '' '' @ ?pv\<rparr>, j)"
    using arg opt assms(3) by (rule loop_body_flag)
  show ?thesis
  proof (cases "trim (currentLine st) \<noteq> []")
    case False
    with body out st show ?thesis by auto
  next
    case True
    let ?st' = "\<lparr>result = result st @ [currentLine st @ continuation],
                  currentLine = cfg_indent ?cfg @ ?pv\<rparr>"
    from True body have b: "loop_body chalk ?cfg parts j st = (?st', j)" by simp
    have "\<forall>k. j + 1 \<le> k \<and> k < length parts \<longrightarrow> type (parts ! k) \<noteq> Command"
      using no_command_after_word [OF wc, of j] arg by auto
    then have "extends ?st' (layout_loop chalk ?cfg parts (j + 1) ?st')"
      by (rule extends_loop)
    moreover have "currentLine ?st' \<noteq> []" using assms(6) by simp
    ultimately obtain l more where
      lm: "final_push (layout_loop chalk ?cfg parts (j + 1) ?st') = result ?st' @ l # more"
          "prefix (currentLine ?st') l"
      using extends_final_push by blast
    have "?lines = final_push (layout_loop chalk ?cfg parts (j + 1) ?st')"
      using layout_lines_from [OF st] b by simp
    with lm have lines: "?lines = result st @ (currentLine st @ continuation) # l # more"
      and pre: "prefix (cfg_indent ?cfg @ ?pv) l"
      by simp_all
    have "flag_line_ok continuation (cfg_indent ?cfg @ ?pv)
            (result st @ (currentLine st @ continuation) # l # more)"
      using pre by (intro flag_line_ok_append) (simp_all add: suffix_def)
    with lines have ok: "flag_line_ok continuation (cfg_indent ?cfg @ ?pv) ?lines" by simp
    from True b lines pre ok out st show ?thesis by auto
  qed
qed

text \<open>
  C6, as stated, fails on the code: an option that comes first is appended to the empty
  current line after a space, so its line does not begin with the indent and no line
  precedes it.
\<close>

theorem flags_on_new_lines_counterexample:
  "parseCommand shell_words ''--alpha --beta'' =
     Inr [\<lparr>type = Argument, value = ''--alpha'', isLongOption = True, isShortOption = False\<rparr>,
          \<lparr>type = Argument, value = ''--beta'', isLongOption = True, isShortOption = False\<rparr>]
   \<and> prettifyCommand shell_words plain_chalk ''--alpha --beta''
        (no_options\<lparr>maxWidth := Some 10, flagsOnNewLine := Some True\<rparr>) =
       '' --alpha'' @ continuation @ newline @ ''  --beta''
   \<and> layout_lines plain_chalk (resolve (no_options\<lparr>maxWidth := Some 10, flagsOnNewLine := Some True\<rparr>))
        [\<lparr>type = Argument, value = ''--alpha'', isLongOption = True, isShortOption = False\<rparr>,
         \<lparr>type = Argument, value = ''--beta'', isLongOption = True, isShortOption = False\<rparr>] =
       ['' --alpha'' @ continuation, ''  --beta'']
   \<and> \<not> flags_on_new_lines plain_chalk
          (resolve (no_options\<lparr>maxWidth := Some 10, flagsOnNewLine := Some True\<rparr>))
          [\<lparr>type = Argument, value = ''--alpha'', isLongOption = True, isShortOption = False\<rparr>,
           \<lparr>type = Argument, value = ''--beta'', isLongOption = True, isShortOption = False\<rparr>]
          ['' --alpha'' @ continuation, ''  --beta'']"
  by (simp add: run_tokenizer run_parser run_layout flags_on_new_lines_def is_option_def)

theorem flag_on_new_line_witness:
  "parseCommand shell_words ''ls --all --long'' =
     Inr [\<lparr>type = Command, value = ''ls'', isLongOption = False, isShortOption = False\<rparr>,
          \<lparr>type = Argument, value = ''--all'', isLongOption = True, isShortOption = False\<rparr>,
          \<lparr>type = Argument, value = ''--long'', isLongOption = True, isShortOption = False\<rparr>]
   \<and> int (length ''ls --all --long'')
       > cfg_maxWidth (resolve (no_options\<lparr>maxWidth := Some 10, flagsOnNewLine := Some True\<rparr>))
   \<and> cfg_flagsOnNewLine (resolve (no_options\<lparr>maxWidth := Some 10, flagsOnNewLine := Some True\<rparr>))
   \<and> loop_heads plain_chalk (resolve (no_options\<lparr>maxWidth := Some 10, flagsOnNewLine := Some True\<rparr>))
        [\<lparr>type = Command, value = ''ls'', isLongOption = False, isShortOption = False\<rparr>,
         \<lparr>type = Argument, value = ''--all'', isLongOption = True, isShortOption = False\<rparr>,
         \<lparr>type = Argument, value = ''--long'', isLongOption = True, isShortOption = False\<rparr>]
        0 initial_state =
       [(0, \<lparr>result = [], currentLine = []\<rparr>),
        (1, \<lparr>result = [], currentLine = ''ls''\<rparr>),
        (2, \<lparr>result = [''ls'' @ continuation], currentLine = ''  --all''\<rparr>)]
   \<and> trim ''ls'' \<noteq> []
   \<and> prettifyCommand shell_words plain_chalk ''ls --all --long''
        (no_options\<lparr>maxWidth := Some 10, flagsOnNewLine := Some True\<rparr>) =
       ''ls'' @ continuation @ newline @ ''  --all'' @ continuation @ newline @ ''  --long''"
  using flag_on_new_line [of shell_words "''ls --all --long''"
      "[\<lparr>type = Command, value = ''ls'', isLongOption = False, isShortOption = False\<rparr>,
        \<lparr>type = Argument, value = ''--all'', isLongOption = True, isShortOption = False\<rparr>,
        \<lparr>type = Argument, value = ''--long'', isLongOption = True, isShortOption = False\<rparr>]"
      "no_options\<lparr>maxWidth := Some 10, flagsOnNewLine := Some True\<rparr>" 1 plain_chalk]
  by (simp add: run_tokenizer run_parser run_layout loop_heads.simps)

lemma render_plain: "cfg_disableColors cfg \<Longrightarrow> render chalk cfg p = value p"
  by (simp add: render_def)

lemma loop_body_plain:
  "cfg_disableColors cfg \<Longrightarrow>
   loop_body chalk cfg parts i st = loop_body chalk' cfg parts i st"
  by (simp add: loop_body_def Let_def render_plain)

lemma layout_loop_plain:
  assumes "cfg_disableColors cfg"
  shows "layout_loop chalk cfg parts i st = layout_loop chalk' cfg parts i st"
  using assms
proof (induction chalk cfg parts i st rule: layout_loop.induct)
  case (1 chalk cfg parts i st)
  show ?case
  proof (cases "i < length parts")
    case True
    have b: "loop_body chalk cfg parts i st = loop_body chalk' cfg parts i st"
      using "1.prems" by (rule loop_body_plain)
    have "layout_loop chalk cfg parts i st =
          layout_loop chalk cfg parts (snd (loop_body chalk cfg parts i st) + 1)
            (fst (loop_body chalk cfg parts i st))"
      using True by (subst layout_loop.simps) simp
    also have "\<dots> = layout_loop chalk' cfg parts (snd (loop_body chalk cfg parts i st) + 1)
            (fst (loop_body chalk cfg parts i st))"
      using "1.IH" [OF True "1.prems"] .
    also have "\<dots> = layout_loop chalk' cfg parts i st"
      using True b by (subst (2) layout_loop.simps) simp
    finally show ?thesis .
  next
    case False
    then show ?thesis by (simp add: layout_loop.simps)
  qed
qed

lemma set_join: "set (join sep ls) \<subseteq> set sep \<union> (\<Union>l\<in>set ls. set l)"
  by (induction sep ls rule: join.induct) auto

lemma state_chars_final_push: "(\<Union>l\<in>set (final_push st). set l) \<subseteq> state_chars st"
  by (auto simp: final_push_def state_chars_def)

lemma part_chars_nth: "k < length parts \<Longrightarrow> set (value (parts ! k)) \<subseteq> part_chars parts"
  unfolding part_chars_def using nth_mem [of k parts] by blast

lemma state_chars_operator_step:
  assumes "state_chars st \<subseteq> A" and "set pv \<subseteq> A" and "CHR '' '' \<in> A"
  shows "state_chars (operator_step v pv st) \<subseteq> A"
  using assms by (auto simp: operator_step_def state_chars_def)

lemma state_chars_break_line:
  assumes "state_chars st \<subseteq> A" and "set v \<subseteq> A" and "set (cfg_indent cfg) \<subseteq> A"
    and "set continuation \<subseteq> A"
  shows "state_chars (break_line cfg st v) \<subseteq> A"
  using assms by (auto simp: break_line_def state_chars_def)

lemma state_chars_place_argument:
  assumes "state_chars st \<subseteq> A" and "set v \<subseteq> A" and "set (cfg_indent cfg) \<subseteq> A"
    and "set continuation \<subseteq> A" and "CHR '' '' \<in> A"
  shows "state_chars (place_argument cfg part v st) \<subseteq> A"
proof -
  have "state_chars (st\<lparr>currentLine := currentLine st @ '' '' @ v\<rparr>) \<subseteq> A"
    using assms(1,2,5) by (auto simp: state_chars_def)
  moreover have "state_chars (break_line cfg st v) \<subseteq> A"
    using assms(1-4) by (rule state_chars_break_line)
  ultimately show ?thesis by (simp add: place_argument_def Let_def)
qed

lemma state_chars_body:
  assumes "cfg_disableColors cfg" and "i < length parts"
    and "state_chars st \<subseteq> plain_alphabet cfg parts"
  shows "state_chars (fst (loop_body chalk cfg parts i st)) \<subseteq> plain_alphabet cfg parts"
proof -
  let ?A = "plain_alphabet cfg parts"
  let ?p = "parts ! i"
  have sp: "CHR '' '' \<in> ?A" and ind: "set (cfg_indent cfg) \<subseteq> ?A"
    and cont: "set continuation \<subseteq> ?A"
    by (auto simp: plain_alphabet_def continuation_def backslash_def)
  have pv: "set (render chalk cfg ?p) \<subseteq> ?A"
    using assms(1,2) part_chars_nth [of i parts] by (auto simp: render_plain plain_alphabet_def)
  show ?thesis
  proof (cases "type ?p")
    case Command
    then have "fst (loop_body chalk cfg parts i st) = st\<lparr>currentLine := render chalk cfg ?p\<rparr>"
      by (simp add: loop_body_def Let_def)
    with assms(3) pv show ?thesis by (auto simp: state_chars_def)
  next
    case Operator
    then show ?thesis
      using state_chars_operator_step [OF assms(3) pv sp] by (simp add: loop_body_operator)
  next
    case Argument
    let ?st1 = "place_argument cfg ?p (render chalk cfg ?p) st"
    have st1: "state_chars ?st1 \<subseteq> ?A"
      using assms(3) pv ind cont sp by (rule state_chars_place_argument)
    show ?thesis
    proof (cases "fst (loop_body chalk cfg parts i st) = ?st1")
      case True
      with st1 show ?thesis by simp
    next
      case False
      with Argument have nl: "i \<noteq> length parts - 1"
        and b: "fst (loop_body chalk cfg parts i st) =
                  break_line cfg ?st1 (render chalk cfg (parts ! (i + 1)))"
        by (auto simp: loop_body_def Let_def split: if_splits)
      from nl assms(2) have "i + 1 < length parts" by simp
      then have "set (render chalk cfg (parts ! (i + 1))) \<subseteq> ?A"
        using assms(1) part_chars_nth [of "i + 1" parts]
        by (auto simp: render_plain plain_alphabet_def)
      with st1 have "state_chars (break_line cfg ?st1 (render chalk cfg (parts ! (i + 1)))) \<subseteq> ?A"
        using ind cont by (intro state_chars_break_line)
      with b show ?thesis by simp
    qed
  qed
qed

lemma state_chars_loop:
  assumes "cfg_disableColors cfg" and "state_chars st \<subseteq> plain_alphabet cfg parts"
  shows "state_chars (layout_loop chalk cfg parts i st) \<subseteq> plain_alphabet cfg parts"
  using assms
proof (induction chalk cfg parts i st rule: layout_loop.induct)
  case (1 chalk cfg parts i st)
  show ?case
  proof (cases "i < length parts")
    case True
    let ?b = "loop_body chalk cfg parts i st"
    have "state_chars (fst ?b) \<subseteq> plain_alphabet cfg parts"
      using "1.prems"(1) True "1.prems"(2) by (rule state_chars_body)
    from "1.IH" [OF True "1.prems"(1) this]
    have "state_chars (layout_loop chalk cfg parts (snd ?b + 1) (fst ?b)) \<subseteq> plain_alphabet cfg parts" .
    moreover have "layout_loop chalk cfg parts i st = layout_loop chalk cfg parts (snd ?b + 1) (fst ?b)"
      using True by (subst layout_loop.simps) simp
    ultimately show ?thesis by simp
  next
    case False
    with "1.prems"(2) show ?thesis by (simp add: layout_loop.simps)
  qed
qed

text \<open>
  C7.  With \<open>disableColors\<close> the result of \<open>prettifyCommand\<close> does not depend on the styling
  library, and every character of it is a character of the command, of a part value, of
  the indent, or a space, a backslash or a newline.  So when none of these contains the
  escape character that begins every styling marker, the result contains none.
\<close>

theorem no_styling_when_colors_disabled:
  assumes "disableColors options = Some True"
  shows "prettifyCommand parse chalk command options = prettifyCommand parse chalk' command options
         \<and> set (prettifyCommand parse chalk command options) \<subseteq> output_alphabet parse command options
         \<and> (CHR 0x1B \<notin> output_alphabet parse command options \<longrightarrow>
              CHR 0x1B \<notin> set (prettifyCommand parse chalk command options))"
proof -
  let ?cfg = "resolve options"
  from assms have plain: "cfg_disableColors ?cfg" by (simp add: resolve_def)
  have indep: "prettifyCommand parse chalk command options = prettifyCommand parse chalk' command options"
    using layout_loop_plain [OF plain, of chalk _ 0 initial_state chalk']
    by (simp add: prettifyCommand_def Let_def split: sum.splits)
  have sub: "set (prettifyCommand parse chalk command options) \<subseteq> output_alphabet parse command options"
  proof (cases "parseCommand parse command")
    case (Inl err)
    then show ?thesis by (auto simp: prettifyCommand_def output_alphabet_def)
  next
    case (Inr parts)
    show ?thesis
    proof (cases "length parts = 0 \<or> int (length command) \<le> cfg_maxWidth ?cfg")
      case True
      with Inr have "prettifyCommand parse chalk command options = command"
        by (auto simp: prettifyCommand_def Let_def)
      then show ?thesis by (auto simp: output_alphabet_def)
    next
      case False
      let ?final = "layout_loop chalk ?cfg parts 0 initial_state"
      from False Inr have out: "prettifyCommand parse chalk command options = finish ?final"
        by (simp add: prettifyCommand_def Let_def)
      have "state_chars initial_state \<subseteq> plain_alphabet ?cfg parts"
        by (simp add: state_chars_def initial_state_def)
      with plain have "state_chars ?final \<subseteq> plain_alphabet ?cfg parts"
        by (rule state_chars_loop)
      with state_chars_final_push [of ?final]
      have "(\<Union>l\<in>set (final_push ?final). set l) \<subseteq> plain_alphabet ?cfg parts" by blast
      with set_join [of newline "final_push ?final"]
      have "set (finish ?final) \<subseteq> set newline \<union> plain_alphabet ?cfg parts"
        unfolding finish_def by blast
      also have "\<dots> \<subseteq> output_alphabet parse command options"
        using Inr by (auto simp: output_alphabet_def plain_alphabet_def newline_def)
      finally show ?thesis using out by simp
    qed
  qed
  from indep sub show ?thesis by blast
qed

theorem no_styling_when_colors_disabled_witness:
  "disableColors (no_options\<lparr>maxWidth := Some 5, disableColors := Some True\<rparr>) = Some True
   \<and> CHR 0x1B \<notin> output_alphabet shell_words ''ls | wc''
                  (no_options\<lparr>maxWidth := Some 5, disableColors := Some True\<rparr>)
   \<and> prettifyCommand shell_words colour_chalk ''ls | wc''
        (no_options\<lparr>maxWidth := Some 5, disableColors := Some True\<rparr>) = ''ls |'' @ newline @ '' wc''
   \<and> prettifyCommand shell_words colour_chalk ''ls | wc'' (no_options\<lparr>maxWidth := Some 5\<rparr>) \<noteq>
       ''ls |'' @ newline @ '' wc''"
  using no_styling_when_colors_disabled [of "no_options\<lparr>maxWidth := Some 5, disableColors := Some True\<rparr>"
      shell_words colour_chalk "''ls | wc''" plain_chalk]
  by (simp add: run_tokenizer run_parser run_layout output_alphabet_def part_chars_def
      colour_chalk_def ansi_def)

end
